theory Spec2Isabelle
  imports Main "HOL-Library.AList"
begin

section \<open>Python strings\<close>

text \<open>
  A Python \<open>str\<close> is modelled as a \<open>string\<close>: one \<open>char\<close> stands for one code
  point, so \<open>length\<close> is Python's \<open>len\<close>. The model covers the code points below 256.
\<close>

text \<open>\<open>s.startswith(p)\<close>\<close>

definition str_startswith :: "string \<Rightarrow> string \<Rightarrow> bool" where
  "str_startswith s p = (take (length p) s = p)"

text \<open>\<open>sub in s\<close> for two strings: \<open>sub\<close> occurs in \<open>s\<close> at some position.\<close>

fun str_in :: "string \<Rightarrow> string \<Rightarrow> bool" where
  "str_in sub [] = (sub = [])"
| "str_in sub (c # cs) = (str_startswith (c # cs) sub \<or> str_in sub cs)"

text \<open>
  \<open>s.replace(old, new)\<close>: every non-overlapping occurrence of \<open>old\<close>, found from
  the left, is replaced. For the empty \<open>old\<close> Python puts \<open>new\<close> before every
  character and at the end.
\<close>

function str_replace :: "string \<Rightarrow> string \<Rightarrow> string \<Rightarrow> string" where
  "str_replace old new [] = (if old = [] then new else [])"
| "str_replace old new (c # cs) =
     (if old = [] then new @ c # str_replace old new cs
      else if str_startswith (c # cs) old
        then new @ str_replace old new (drop (length old) (c # cs))
      else c # str_replace old new cs)"
  by pat_completeness auto
termination
  by (relation "measure (\<lambda>(old, new, s). length s)") auto

text \<open>
  \<open>s.strip()\<close> removes leading and trailing whitespace. Below 256 Python's
  whitespace is TAB, LF, VT, FF, CR, the separators 28 to 31, the space, NEL (133) and the
  no-break space (160).
\<close>

definition is_space :: "char \<Rightarrow> bool" where
  "is_space c = ((of_char c :: nat) \<in> {9, 10, 11, 12, 13, 28, 29, 30, 31, 32, 133, 160})"

definition str_strip :: "string \<Rightarrow> string" where
  "str_strip s = rev (dropWhile is_space (rev (dropWhile is_space s)))"

text \<open>\<open>sep.join(parts)\<close>\<close>

fun str_join :: "string \<Rightarrow> string list \<Rightarrow> string" where
  "str_join sep [] = []"
| "str_join sep [p] = p"
| "str_join sep (p # q # ps) = p @ sep @ str_join sep (q # ps)"

section \<open>JSON values and Python dictionaries\<close>

text \<open>
  What \<open>json.loads\<close> returns. An object is a Python \<open>dict\<close>: an association list
  with distinct keys in insertion order. \<open>map_of d k\<close> reads a key, \<open>AList.update k v d\<close>
  is \<open>d[k] = v\<close> (an existing key keeps its place, a new key goes to the end). Numbers
  are the integers; numbers with a fraction or an exponent are outside the model.
\<close>

datatype json =
    JNull
  | JBool bool
  | JNum int
  | JStr string
  | JArr "json list"
  | JObj "(string \<times> json) list"

type_synonym dict = "(string \<times> json) list"

datatype py_error = TypeError | AttributeError | UnicodeDecodeError | OSError

text \<open>Truth value of a Python object, as tested by \<open>if x\<close> and \<open>not x\<close>.\<close>

fun truthy :: "json \<Rightarrow> bool" where
  "truthy JNull = False"
| "truthy (JBool b) = b"
| "truthy (JNum n) = (n \<noteq> 0)"
| "truthy (JStr s) = (s \<noteq> [])"
| "truthy (JArr xs) = (xs \<noteq> [])"
| "truthy (JObj d) = (d \<noteq> [])"

text \<open>\<open>x == y\<close>: booleans are the numbers 0 and 1, dictionaries compare without order.\<close>

fun py_num :: "json \<Rightarrow> int option" where
  "py_num (JBool b) = Some (if b then 1 else 0)"
| "py_num (JNum n) = Some n"
| "py_num _ = None"

fun py_eq :: "json \<Rightarrow> json \<Rightarrow> bool" where
  "py_eq (JArr xs) y = (case y of JArr ys \<Rightarrow> list_all2 py_eq xs ys | _ \<Rightarrow> False)"
| "py_eq (JObj d) y =
     (case y of
        JObj e \<Rightarrow> length d = length e \<and>
          list_all (\<lambda>(k, v). case map_of e k of None \<Rightarrow> False | Some w \<Rightarrow> py_eq v w) d
      | _ \<Rightarrow> False)"
| "py_eq (JStr s) y = (y = JStr s)"
| "py_eq JNull y = (y = JNull)"
| "py_eq x y = (py_num x \<noteq> None \<and> py_num x = py_num y)"

text \<open>\<open>d.get(k)\<close>: \<open>None\<close> for a missing key.\<close>

definition py_get :: "dict \<Rightarrow> string \<Rightarrow> json" where
  "py_get d k = (case map_of d k of None \<Rightarrow> JNull | Some v \<Rightarrow> v)"

text \<open>
  \<open>x in c\<close>. A list is searched with \<open>==\<close>, a string for a substring (the left side
  must be a string), a dictionary for a key (the left side must be hashable); anything
  else is not iterable.
\<close>

definition py_contains :: "json \<Rightarrow> json \<Rightarrow> py_error + bool" where
  "py_contains x c =
     (case c of
        JArr xs \<Rightarrow> Inr (list_ex (py_eq x) xs)
      | JStr s \<Rightarrow> (case x of JStr a \<Rightarrow> Inr (str_in a s) | _ \<Rightarrow> Inl TypeError)
      | JObj d \<Rightarrow>
          (case x of
             JArr _ \<Rightarrow> Inl TypeError
           | JObj _ \<Rightarrow> Inl TypeError
           | JStr a \<Rightarrow> Inr (map_of d a \<noteq> None)
           | _ \<Rightarrow> Inr False)
      | _ \<Rightarrow> Inl TypeError)"

section \<open>The article record\<close>

text \<open>
  The dictionary \<open>scrape_article\<close> returns, with its keys \<open>url\<close>, \<open>title\<close>,
  \<open>structure\<close>, \<open>content\<close> and \<open>image_url\<close> as fields. \<open>title\<close> and \<open>image_url\<close>
  hold what \<open>Tag.get('content')\<close> returned, which is \<open>None\<close> for a missing
  attribute. The key \<open>source_tags\<close> is left out: it only feeds the prompt.
\<close>

record article =
  art_url :: string
  art_title :: "string option"
  art_structure :: "string list"
  art_content :: string
  art_image_url :: "string option"

definition opt_json :: "string option \<Rightarrow> json" where
  "opt_json v = (case v of None \<Rightarrow> JNull | Some s \<Rightarrow> JStr s)"


section \<open>The parsed document\<close>

text \<open>
  The tree BeautifulSoup builds. A string node carries the class the parser gave it:
  ordinary text is a \<open>NavigableString\<close>; a comment, a CDATA section, a declaration, a
  doctype and a processing instruction have classes of their own, and so has the text
  inside \<open>script\<close>, \<open>style\<close>, \<open>template\<close>, \<open>rt\<close> and \<open>rp\<close>. An element
  (\<open>Tag\<close>) has its name, its attributes and its children. A document is the list of
  the top-level nodes.
\<close>

datatype string_class =
    NavigableString
  | CData
  | Comment
  | Declaration
  | Doctype
  | ProcessingInstruction
  | Script
  | Stylesheet
  | TemplateString
  | RubyTextString
  | RubyParenthesisString

datatype node =
    PageString string_class string
  | Tag string "(string \<times> string) list" "node list"

type_synonym soup = "node list"

text \<open>The elements below a node, the node itself first, in document order.\<close>

fun descendant_tags :: "node \<Rightarrow> node list" where
  "descendant_tags (PageString c s) = []"
| "descendant_tags (Tag name attrs children) =
     Tag name attrs children # concat (map descendant_tags children)"

text \<open>\<open>soup.find_all(...)\<close> and \<open>soup.find(...)\<close> for a test on elements.\<close>

definition find_all :: "(node \<Rightarrow> bool) \<Rightarrow> soup \<Rightarrow> node list" where
  "find_all matches soup = filter matches (concat (map descendant_tags soup))"

definition find_first :: "(node \<Rightarrow> bool) \<Rightarrow> soup \<Rightarrow> node option" where
  "find_first matches soup = (case find_all matches soup of [] \<Rightarrow> None | t # _ \<Rightarrow> Some t)"

text \<open>The tests the scraper uses: an element name, and an attribute with a value.\<close>

fun named :: "string \<Rightarrow> node \<Rightarrow> bool" where
  "named n (PageString c s) = False"
| "named n (Tag name attrs children) = (name = n)"

fun tag_get :: "node \<Rightarrow> string \<Rightarrow> string option" where
  "tag_get (PageString c s) key = None"
| "tag_get (Tag name attrs children) key = map_of attrs key"

definition meta_with :: "string \<Rightarrow> string \<Rightarrow> node \<Rightarrow> bool" where
  "meta_with key v t = (named ''meta'' t \<and> tag_get t key = Some v)"

text \<open>The string nodes below a node, each with its class, in document order.\<close>

fun strings :: "node \<Rightarrow> (string_class \<times> string) list" where
  "strings (PageString c s) = [(c, s)]"
| "strings (Tag name attrs children) = concat (map strings children)"

text \<open>
  The classes of string that \<open>get_text\<close> of a tag collects: for the five container
  elements their own class, for every other element \<open>NavigableString\<close> and \<open>CData\<close>.
  The class must be one of these exactly, so comments and the text of scripts and styles
  inside a paragraph or a heading are skipped.
\<close>

definition interesting_string_types :: "string \<Rightarrow> string_class list" where
  "interesting_string_types name =
     (if name = ''rt'' then [RubyTextString]
      else if name = ''rp'' then [RubyParenthesisString]
      else if name = ''style'' then [Stylesheet]
      else if name = ''script'' then [Script]
      else if name = ''template'' then [TemplateString]
      else [NavigableString, CData])"

text \<open>
  What \<open>get_text(strip=True)\<close> does with the strings it collected: each is stripped
  on its own, the empty ones are dropped, and the rest is joined without a separator.
\<close>

definition glue_stripped :: "string list \<Rightarrow> string" where
  "glue_stripped pieces = concat (filter (\<lambda>s. s \<noteq> []) (map str_strip pieces))"

text \<open>\<open>tag.get_text(strip=True)\<close>\<close>

fun get_text :: "node \<Rightarrow> string" where
  "get_text (PageString c s) =
     glue_stripped (if c = NavigableString \<or> c = CData then [s] else [])"
| "get_text (Tag name attrs children) =
     glue_stripped
       (map snd (filter (\<lambda>cs. fst cs \<in> set (interesting_string_types name))
                   (strings (Tag name attrs children))))"

text \<open>
  \<open>tag.string\<close>: the string of a tag whose only child is a string node of any class,
  or the \<open>.string\<close> of its only child; \<open>None\<close> for no child or several.
\<close>

fun tag_string :: "node \<Rightarrow> string option" where
  "tag_string (PageString c s) = Some s"
| "tag_string (Tag name attrs [child]) = tag_string child"
| "tag_string (Tag name attrs children) = None"

section \<open>Article extractor\<close>

text \<open>
  Lines 96-100, the loop over the paragraphs:
  \<^verbatim>\<open>
    paragraphs = []
    for p in soup.find_all('p'):
        text = p.get_text(strip=True)
        if len(text) > 40:
            paragraphs.append(text)
  \<close>
\<close>

fun collect_paragraphs :: "node list \<Rightarrow> string list \<Rightarrow> string list" where
  "collect_paragraphs [] paragraphs = paragraphs"
| "collect_paragraphs (p # ps) paragraphs =
     (let t = get_text p
      in if length t > 40 then collect_paragraphs ps (paragraphs @ [t])
         else collect_paragraphs ps paragraphs)"

text \<open>
  Lines 83-88, the title from \<open>title\<close> and \<open>h1\<close>:
  \<^verbatim>\<open>
    title = soup.title.string if soup.title else ""
    h1 = soup.find('h1')
    if h1:
        title = h1.get_text(strip=True)
    elif not title:
         title = "Untitled Article"
  \<close>
  A tag is always true; \<open>not title\<close> holds for \<open>None\<close> and for the empty string.
\<close>

definition heading_title :: "soup \<Rightarrow> string option" where
  "heading_title soup =
     (let title = (case find_first (named ''title'') soup of
                     Some t \<Rightarrow> tag_string t
                   | None \<Rightarrow> Some [])
      in case find_first (named ''h1'') soup of
           Some h1 \<Rightarrow> Some (get_text h1)
         | None \<Rightarrow>
             (if title = None \<or> title = Some [] then Some ''Untitled Article'' else title))"

text \<open>
  Lines 105-113 and 121-122, the image:
  \<^verbatim>\<open>
    image_url = ""
    og_image = soup.find('meta', property='og:image')
    if og_image:
        image_url = og_image.get('content')
    else:
        tw_image = soup.find('meta', attrs={'name': 'twitter:image'})
        if tw_image:
            image_url = tw_image.get('content')
    ...
    if image_url and image_url.startswith('http://'):
        image_url = image_url.replace('http://', 'https://')
  \<close>
\<close>

definition featured_image :: "soup \<Rightarrow> string option" where
  "featured_image soup =
     (let image_url =
            (case find_first (meta_with ''property'' ''og:image'') soup of
               Some og_image \<Rightarrow> tag_get og_image ''content''
             | None \<Rightarrow>
                 (case find_first (meta_with ''name'' ''twitter:image'') soup of
                    Some tw_image \<Rightarrow> tag_get tw_image ''content''
                  | None \<Rightarrow> Some []))
      in case image_url of
           Some u \<Rightarrow>
             (if u \<noteq> [] \<and> str_startswith u ''http://''
              then Some (str_replace ''http://'' ''https://'' u) else Some u)
         | None \<Rightarrow> None)"

text \<open>
  \<open>scrape_article(url)\<close>. The fetched and parsed page is a parameter: \<open>None\<close> when
  \<open>requests.get\<close> or \<open>raise_for_status\<close> raised, which line 147 turns into the
  result \<open>None\<close>. Lines 116-118 let an \<open>og:title\<close> element override the title; line
  143 cuts the content at 15000 characters.
\<close>

definition scrape_article :: "string \<Rightarrow> soup option \<Rightarrow> article option" where
  "scrape_article url response =
     (case response of
        None \<Rightarrow> None
      | Some soup \<Rightarrow>
          (let title = heading_title soup;
               structure = map get_text (find_all (\<lambda>t. named ''h2'' t \<or> named ''h3'' t) soup);
               paragraphs = collect_paragraphs (find_all (named ''p'') soup) [];
               full_text = str_join [CHR 0x0A, CHR 0x0A] paragraphs;
               title = (case find_first (meta_with ''property'' ''og:title'') soup of
                          Some og_title \<Rightarrow> tag_get og_title ''content''
                        | None \<Rightarrow> title)
           in Some \<lparr> art_url = url, art_title = title, art_structure = structure,
                     art_content = take 15000 full_text,
                     art_image_url = featured_image soup \<rparr>))"

text \<open>
  The title resolution as the specification words it: the first non-empty value among the
  \<open>og:title\<close> content, the text of the first \<open>h1\<close>, the text of \<open>title\<close>, and
  the fallback.
\<close>

definition spec_title :: "soup \<Rightarrow> string" where
  "spec_title soup =
     (let og = (case find_first (meta_with ''property'' ''og:title'') soup of
                  Some m \<Rightarrow> (case tag_get m ''content'' of Some c \<Rightarrow> c | None \<Rightarrow> [])
                | None \<Rightarrow> []);
          h1 = (case find_first (named ''h1'') soup of Some h \<Rightarrow> get_text h | None \<Rightarrow> []);
          t = (case find_first (named ''title'') soup of
                 Some e \<Rightarrow> (case tag_string e of Some s \<Rightarrow> s | None \<Rightarrow> [])
               | None \<Rightarrow> [])
      in if og \<noteq> [] then og else if h1 \<noteq> [] then h1
         else if t \<noteq> [] then t else ''Untitled Article'')"

text \<open>
  The body filter as the specification words it: the trimmed text of a paragraph is its
  whole text (comments and scripts apart), stripped at its two ends.
\<close>

definition spec_trimmed_text :: "node \<Rightarrow> string" where
  "spec_trimmed_text p =
     str_strip (concat (map snd
       (filter (\<lambda>cs. fst cs = NavigableString \<or> fst cs = CData) (strings p))))"

section \<open>Caption generator: language selection\<close>

text \<open>
  Lines 157-159 of \<open>generate_instagram_post\<close>:
  \<^verbatim>\<open>
    target_lang = "sv"
    if "en-gb" in article_data['url'] or "/en/" in article_data['url'] or "-en-" in article_data['url']:
        target_lang = "en"
  \<close>
\<close>

definition target_lang :: "string \<Rightarrow> string" where
  "target_lang url =
     (if str_in ''en-gb'' url \<or> str_in ''/en/'' url \<or> str_in ''-en-'' url
      then ''en'' else ''sv'')"

section \<open>Caption generator: normalization of the reply\<close>

text \<open>
  Lines 210-213, the shape of the caption:
  \<^verbatim>\<open>
    if 'post_text' not in data:
        content_source = data.get('instagram_post', data)
        if isinstance(content_source, dict) and 'caption_text' in content_source:
             data['post_text'] = content_source['caption_text']
  \<close>
\<close>

definition resolve_caption :: "dict \<Rightarrow> dict" where
  "resolve_caption data =
     (if map_of data ''post_text'' = None then
        (let content_source =
               (case map_of data ''instagram_post'' of None \<Rightarrow> JObj data | Some v \<Rightarrow> v)
         in case content_source of
              JObj cs \<Rightarrow>
                (case map_of cs ''caption_text'' of
                   Some caption \<Rightarrow> AList.update ''post_text'' caption data
                 | None \<Rightarrow> data)
            | _ \<Rightarrow> data)
      else data)"

text \<open>
  Lines 217-230, the clean-up of the caption text:
  \<^verbatim>\<open>
    garbage = ["Caption Text:", "CAPTION:", "**"]
    for g in garbage:
        clean = clean.replace(g, "")
    if article_data['url'] in clean:
         clean = clean.replace(article_data['url'], "")
    clean = clean.strip()
  \<close>
\<close>

definition garbage :: "string list" where
  "garbage = [''Caption Text:'', ''CAPTION:'', ''**'']"

definition clean_caption :: "string \<Rightarrow> string \<Rightarrow> string" where
  "clean_caption url caption =
     (let clean = fold (\<lambda>g clean. str_replace g [] clean) garbage caption;
          clean = (if str_in url clean then str_replace url [] clean else clean)
      in str_strip clean)"

text \<open>
  Lines 216-235. \<open>clean.replace\<close> exists only for a string: for any other value of
  \<open>post_text\<close> the attribute lookup raises, the \<open>except Exception\<close> of line 237
  catches it and the function returns \<open>None\<close>.
\<close>

definition post_process :: "string \<Rightarrow> dict \<Rightarrow> dict option" where
  "post_process url data =
     (case map_of data ''post_text'' of
        None \<Rightarrow> Some data
      | Some (JStr clean) \<Rightarrow>
          Some (AList.update ''language'' (JStr (target_lang url))
                 (AList.update ''post_text'' (JStr (clean_caption url clean)) data))
      | Some _ \<Rightarrow> None)"

text \<open>
  Lines 163-165, the look-up of the earlier angles for the prompt, before the \<open>try\<close>:
  \<^verbatim>\<open>
    if history and article_data['url'] in history:
        previous_angles = history[article_data['url']]
        if previous_angles:
  \<close>
  The result is the list put into the prompt, if any. An error here is not caught.
\<close>

definition previous_angles :: "json \<Rightarrow> string \<Rightarrow> py_error + json option" where
  "previous_angles history url =
     (if \<not> truthy history then Inr None
      else case py_contains (JStr url) history of
             Inl e \<Rightarrow> Inl e
           | Inr False \<Rightarrow> Inr None
           | Inr True \<Rightarrow>
               (case history of
                  JObj h \<Rightarrow>
                    (if truthy (py_get h url) then Inr (Some (py_get h url)) else Inr None)
                | _ \<Rightarrow> Inl TypeError))"

text \<open>
  \<open>generate_instagram_post(article_data, api_key, history)\<close>. The reply of the
  generative model is a parameter: \<open>None\<close> when the call or \<open>json.loads\<close> raised,
  otherwise the parsed value. The prompt itself is not modelled. On a reply that is not a
  dictionary the membership test, \<open>data.get\<close> or \<open>data['post_text']\<close> raises, which
  line 237 catches. \<open>Inl\<close> is an uncaught error, \<open>Inr None\<close> the returned \<open>None\<close>.
\<close>

definition generate_instagram_post :: "article \<Rightarrow> json option \<Rightarrow> json \<Rightarrow> py_error + dict option" where
  "generate_instagram_post article_data reply history =
     (case previous_angles history (art_url article_data) of
        Inl e \<Rightarrow> Inl e
      | Inr _ \<Rightarrow>
          (case reply of
             Some (JObj data) \<Rightarrow>
               Inr (post_process (art_url article_data) (resolve_caption data))
           | _ \<Rightarrow> Inr None))"

section \<open>Main: back-fill and the angle history\<close>

text \<open>
  Lines 275-282:
  \<^verbatim>\<open>
    if not result.get('article_url'):
        result['article_url'] = args.url
    if not result.get('image_url') or result['image_url'] == "":
        result['image_url'] = data['image_url']
    if not result.get('title'):
        result['title'] = data['title']
  \<close>
\<close>

definition backfill :: "string \<Rightarrow> article \<Rightarrow> dict \<Rightarrow> dict" where
  "backfill url data result =
     (let result = (if \<not> truthy (py_get result ''article_url'')
                    then AList.update ''article_url'' (JStr url) result else result);
          result = (if \<not> truthy (py_get result ''image_url'')
                       \<or> py_eq (py_get result ''image_url'') (JStr [])
                    then AList.update ''image_url'' (opt_json (art_image_url data)) result
                    else result);
          result = (if \<not> truthy (py_get result ''title'')
                    then AList.update ''title'' (opt_json (art_title data)) result else result)
      in result)"

text \<open>
  Lines 290-293:
  \<^verbatim>\<open>
    new_angle = ""
    post_data = result.get('instagram_post') or result
    if isinstance(post_data, dict):
         new_angle = post_data.get('angle_description')
  \<close>
\<close>

definition new_angle_of :: "dict \<Rightarrow> json" where
  "new_angle_of result =
     (let post_data = (if truthy (py_get result ''instagram_post'')
                       then py_get result ''instagram_post'' else JObj result)
      in case post_data of
           JObj p \<Rightarrow> py_get p ''angle_description''
         | _ \<Rightarrow> JStr [])"

text \<open>
  Lines 296-302, the recording of an angle:
  \<^verbatim>\<open>
    if args.url not in history:
        history[args.url] = []
    if new_angle not in history[args.url]:
        history[args.url].append(new_angle)
        save_history(history)
  \<close>
  The result is the history afterwards and whether it was changed (and so saved). A
  history that is not a dictionary fails with a \<open>TypeError\<close> at the membership test or
  at the subscript; an entry that is not a list has no \<open>append\<close>.
\<close>

definition record_angle :: "json \<Rightarrow> string \<Rightarrow> json \<Rightarrow> py_error + (json \<times> bool)" where
  "record_angle history url new_angle =
     (case history of
        JObj h \<Rightarrow>
          (let h = (if map_of h url = None then AList.update url (JArr []) h else h);
               entry = py_get h url
           in case py_contains new_angle entry of
                Inl e \<Rightarrow> Inl e
              | Inr True \<Rightarrow> Inr (JObj h, False)
              | Inr False \<Rightarrow>
                  (case entry of
                     JArr xs \<Rightarrow> Inr (JObj (AList.update url (JArr (xs @ [new_angle])) h), True)
                   | _ \<Rightarrow> Inl AttributeError))
      | _ \<Rightarrow> Inl TypeError)"

text \<open>
  Lines 289-302: \<open>if result and args.url:\<close> and \<open>if new_angle:\<close> guard the
  recording.
\<close>

definition update_history :: "json \<Rightarrow> string \<Rightarrow> dict \<Rightarrow> py_error + (json \<times> bool)" where
  "update_history history url result =
     (if truthy (JObj result) \<and> url \<noteq> [] then
        (let new_angle = new_angle_of result
         in if truthy new_angle then record_angle history url new_angle
            else Inr (history, False))
      else Inr (history, False))"

text \<open>
  A well-formed angle history maps URLs to lists of strings; its invariant is that no
  list holds a string twice.
\<close>

fun is_angle_list :: "json \<Rightarrow> bool" where
  "is_angle_list (JArr xs) = list_all (\<lambda>x. case x of JStr _ \<Rightarrow> True | _ \<Rightarrow> False) xs"
| "is_angle_list _ = False"

fun wf_history :: "json \<Rightarrow> bool" where
  "wf_history (JObj h) = (distinct (map fst h) \<and> list_all (\<lambda>kv. is_angle_list (snd kv)) h)"
| "wf_history _ = False"

fun no_repeats :: "json \<Rightarrow> bool" where
  "no_repeats (JObj h) =
     list_all (\<lambda>kv. case snd kv of JArr xs \<Rightarrow> distinct xs | _ \<Rightarrow> False) h"
| "no_repeats _ = False"

text \<open>The angle list of a URL in a history.\<close>

fun angles :: "json \<Rightarrow> string \<Rightarrow> json list" where
  "angles (JObj h) url = (case map_of h url of Some (JArr xs) \<Rightarrow> xs | _ \<Rightarrow> [])"
| "angles _ url = []"

section \<open>JSON text\<close>

text \<open>
  \<open>json.dump(history, f, indent=2, ensure_ascii=False)\<close> and \<open>json.load(f)\<close> of
  the standard library, on the text of the file. The encoder is modelled on every value:
  a string is quoted, with \<open>"\<close>, the backslash and the control characters below 32
  escaped (\<open>\b \f \n \r \t\<close>, else \<open>\u00XX\<close>) and every other character kept as it
  is; a non-empty list or dictionary puts each item on a line of its own, indented by two
  spaces per level, with \<open>,\<close> between items and \<open>: \<close> after a key.
\<close>

abbreviation DQ :: char where "DQ \<equiv> CHR 0x22"
abbreviation BS :: char where "BS \<equiv> CHR 0x5C"
abbreviation LF :: char where "LF \<equiv> CHR 0x0A"

definition hex_digit :: "nat \<Rightarrow> char" where
  "hex_digit n = (if n < 10 then char_of (48 + n) else char_of (87 + n))"

definition escape_char :: "char \<Rightarrow> string" where
  "escape_char c =
     (if c = DQ then [BS, DQ]
      else if c = BS then [BS, BS]
      else if c = CHR 0x08 then [BS, CHR ''b'']
      else if c = CHR 0x0C then [BS, CHR ''f'']
      else if c = LF then [BS, CHR ''n'']
      else if c = CHR 0x0D then [BS, CHR ''r'']
      else if c = CHR 0x09 then [BS, CHR ''t'']
      else if (of_char c :: nat) < 32
        then [BS, CHR ''u'', CHR ''0'', CHR ''0'',
              hex_digit (of_char c div 16), hex_digit (of_char c mod 16)]
      else [c])"

definition encode_basestring :: "string \<Rightarrow> string" where
  "encode_basestring s = DQ # concat (map escape_char s) @ [DQ]"

function nat_repr :: "nat \<Rightarrow> string" where
  "nat_repr n = (if n < 10 then [char_of (48 + n)]
                 else nat_repr (n div 10) @ [char_of (48 + n mod 10)])"
  by pat_completeness auto
termination
  by (relation "measure id") auto

definition int_repr :: "int \<Rightarrow> string" where
  "int_repr i = (if i < 0 then CHR ''-'' # nat_repr (nat (- i)) else nat_repr (nat i))"

definition newline_indent :: "nat \<Rightarrow> string" where
  "newline_indent level = LF # replicate (2 * level) (CHR '' '')"

fun json_encode :: "nat \<Rightarrow> json \<Rightarrow> string" where
  "json_encode level JNull = ''null''"
| "json_encode level (JBool b) = (if b then ''true'' else ''false'')"
| "json_encode level (JNum n) = int_repr n"
| "json_encode level (JStr s) = encode_basestring s"
| "json_encode level (JArr xs) =
     (if xs = [] then ''[]''
      else ''['' @ newline_indent (Suc level)
           @ str_join ('','' @ newline_indent (Suc level)) (map (json_encode (Suc level)) xs)
           @ newline_indent level @ '']'')"
| "json_encode level (JObj d) =
     (if d = [] then ''{}''
      else ''{'' @ newline_indent (Suc level)
           @ str_join ('','' @ newline_indent (Suc level))
               (map (\<lambda>(k, v). encode_basestring k @ '': '' @ json_encode (Suc level) v) d)
           @ newline_indent level @ ''}'')"

definition json_dumps :: "json \<Rightarrow> string" where
  "json_dumps v = json_encode 0 v"


text \<open>
  The decoder is modelled on the documents that are a dictionary from strings to lists of
  strings, in any layout JSON allows (whitespace is space, TAB, LF and CR): on such a
  document \<open>parse_history\<close> gives the pairs in the order read, and \<open>dict(pairs)\<close>
  keeps the last value of a repeated key at the place of its first. What the decoder
  does on any other text (another value, or \<open>None\<close> for a \<open>JSONDecodeError\<close>) is the
  parameter \<open>other\<close> of \<open>json_loads\<close>.
\<close>

definition is_ws :: "char \<Rightarrow> bool" where
  "is_ws c = (c = CHR '' '' \<or> c = CHR 0x09 \<or> c = LF \<or> c = CHR 0x0D)"

definition skip_ws :: "string \<Rightarrow> string" where
  "skip_ws s = dropWhile is_ws s"

definition hex_val :: "char \<Rightarrow> nat option" where
  "hex_val c =
     (let n = (of_char c :: nat)
      in if 48 \<le> n \<and> n \<le> 57 then Some (n - 48)
         else if 97 \<le> n \<and> n \<le> 102 then Some (n - 87)
         else if 65 \<le> n \<and> n \<le> 70 then Some (n - 55)
         else None)"

definition unescape :: "char \<Rightarrow> char option" where
  "unescape e =
     (if e = DQ then Some DQ
      else if e = BS then Some BS
      else if e = CHR ''/'' then Some (CHR ''/'')
      else if e = CHR ''b'' then Some (CHR 0x08)
      else if e = CHR ''f'' then Some (CHR 0x0C)
      else if e = CHR ''n'' then Some LF
      else if e = CHR ''r'' then Some (CHR 0x0D)
      else if e = CHR ''t'' then Some (CHR 0x09)
      else None)"

definition cons_result :: "'a \<Rightarrow> ('a list \<times> string) option \<Rightarrow> ('a list \<times> string) option" where
  "cons_result x r = (case r of None \<Rightarrow> None | Some (xs, rest) \<Rightarrow> Some (x # xs, rest))"

text \<open>The escape after a backslash: the character it stands for and the text after it.\<close>

definition scan_escape :: "string \<Rightarrow> (char \<times> string) option" where
  "scan_escape s =
     (case s of
        [] \<Rightarrow> None
      | e # rest \<Rightarrow>
          (if e = CHR ''u'' then
             (case rest of
                a # b # x # y # rest' \<Rightarrow>
                  (case (hex_val a, hex_val b, hex_val x, hex_val y) of
                     (Some 0, Some 0, Some p, Some q) \<Rightarrow> Some (char_of (16 * p + q), rest')
                   | _ \<Rightarrow> None)
              | _ \<Rightarrow> None)
           else (case unescape e of None \<Rightarrow> None | Some ch \<Rightarrow> Some (ch, rest))))"

lemma scan_escape_length [termination_simp]:
  "scan_escape s = Some (ch, rest) \<Longrightarrow> length rest < length s"
  by (auto simp: scan_escape_def split: list.splits if_splits option.splits nat.splits)

fun scanstring :: "string \<Rightarrow> (string \<times> string) option" where
  "scanstring [] = None"
| "scanstring (c # cs) =
     (if c = DQ then Some ([], cs)
      else if c = BS then
        (case scan_escape cs of
           None \<Rightarrow> None
         | Some (ch, rest) \<Rightarrow> cons_result ch (scanstring rest))
      else if (of_char c :: nat) < 32 then None
      else cons_result c (scanstring cs))"

lemma scanstring_length [termination_simp]:
  "scanstring s = Some (r, rest) \<Longrightarrow> length rest < length s"
proof (induction s arbitrary: r rest rule: scanstring.induct)
  case 1
  then show ?case by simp
next
  case (2 c cs)
  then show ?case
    by (fastforce simp: cons_result_def dest: scan_escape_length
        split: if_splits option.splits prod.splits)
qed

lemma skip_ws_length: "length (skip_ws s) \<le> length s"
  by (simp add: skip_ws_def length_dropWhile_le)

lemma skip_ws_Cons_length [termination_simp]:
  "skip_ws s = c # rest \<Longrightarrow> length rest < length s"
  using skip_ws_length [of s] by simp

lemma scan_items_decreases:
  assumes "scanstring cs = Some (item, rest)" and "skip_ws rest = d # rest'"
  shows "length (skip_ws rest') < Suc (length cs)"
proof -
  have "length (skip_ws rest') \<le> length rest'" by (rule skip_ws_length)
  also have "\<dots> < length rest" using assms(2) by (rule skip_ws_Cons_length)
  also have "\<dots> < length cs" using assms(1) by (rule scanstring_length)
  finally show ?thesis by simp
qed

function scan_items :: "string \<Rightarrow> (string list \<times> string) option" where
  "scan_items [] = None"
| "scan_items (c # cs) =
     (if c = DQ then
        (case scanstring cs of
           None \<Rightarrow> None
         | Some (item, rest) \<Rightarrow>
             (case skip_ws rest of
                [] \<Rightarrow> None
              | d # rest' \<Rightarrow>
                  (if d = CHR '']'' then Some ([item], rest')
                   else if d = CHR '','' then cons_result item (scan_items (skip_ws rest'))
                   else None)))
      else None)"
  by pat_completeness auto
termination
  by (relation "measure length") (auto intro: scan_items_decreases)

definition scan_array :: "string \<Rightarrow> (string list \<times> string) option" where
  "scan_array s =
     (case skip_ws s of
        [] \<Rightarrow> None
      | c # cs \<Rightarrow> if c = CHR '']'' then Some ([], cs) else scan_items (c # cs))"

lemma cons_result_rest: "cons_result x r = Some (xs, rest) \<Longrightarrow> \<exists>ys. r = Some (ys, rest)"
  by (auto simp: cons_result_def split: option.splits)

lemma scan_items_length: "scan_items s = Some (items, rest) \<Longrightarrow> length rest < length s"
proof (induction s arbitrary: items rest rule: scan_items.induct)
  case 1
  then show ?case by simp
next
  case (2 c cs)
  from "2.prems" have c: "c = DQ" by (simp split: if_splits)
  from "2.prems" c obtain item r1 where s1: "scanstring cs = Some (item, r1)"
    by (auto split: option.splits)
  from "2.prems" c s1 obtain d r2 where s2: "skip_ws r1 = d # r2"
    by (auto split: list.splits)
  have l2: "length r2 < length cs"
    using scanstring_length [OF s1] skip_ws_Cons_length [OF s2] by simp
  show ?case
  proof (cases "d = CHR '']''")
    case True
    with "2.prems" c s1 s2 l2 show ?thesis by simp
  next
    case False
    with "2.prems" c s1 s2 have d: "d = CHR '',''" by (simp split: if_splits)
    with "2.prems" c s1 s2 False obtain ys where "scan_items (skip_ws r2) = Some (ys, rest)"
      using cons_result_rest by fastforce
    from "2.IH" [OF c s1 _ s2 False d this] have "length rest < length (skip_ws r2)" by simp
    with skip_ws_length [of r2] l2 show ?thesis by simp
  qed
qed

lemma scan_array_length: "scan_array s = Some (items, rest) \<Longrightarrow> length rest < length s"
proof -
  assume a: "scan_array s = Some (items, rest)"
  then obtain c cs where s1: "skip_ws s = c # cs"
    by (auto simp: scan_array_def split: list.splits)
  have l1: "length (c # cs) \<le> length s" using skip_ws_length [of s] s1 by simp
  show ?thesis
  proof (cases "c = CHR '']''")
    case True
    with a s1 have "rest = cs" by (simp add: scan_array_def)
    with l1 show ?thesis by simp
  next
    case False
    with a s1 have "scan_items (c # cs) = Some (items, rest)" by (simp add: scan_array_def)
    from scan_items_length [OF this] l1 show ?thesis by simp
  qed
qed

lemma scan_pairs_decreases:
  assumes "scanstring cs = Some (key, rest)" and "skip_ws rest = colon # rest1"
    and "skip_ws rest1 = br # rest2" and "scan_array rest2 = Some (items, rest3)"
    and "skip_ws rest3 = d # rest4"
  shows "length (skip_ws rest4) < Suc (length cs)"
proof -
  have "length (skip_ws rest4) \<le> length rest4" by (rule skip_ws_length)
  also have "\<dots> < length rest3" using assms(5) by (rule skip_ws_Cons_length)
  also have "\<dots> < length rest2" using assms(4) by (rule scan_array_length)
  also have "\<dots> < length rest1" using assms(3) by (rule skip_ws_Cons_length)
  also have "\<dots> < length rest" using assms(2) by (rule skip_ws_Cons_length)
  also have "\<dots> < length cs" using assms(1) by (rule scanstring_length)
  finally show ?thesis by simp
qed

function scan_pairs :: "string \<Rightarrow> ((string \<times> string list) list \<times> string) option" where
  "scan_pairs [] = None"
| "scan_pairs (c # cs) =
     (if c = DQ then
        (case scanstring cs of
           None \<Rightarrow> None
         | Some (key, rest) \<Rightarrow>
             (case skip_ws rest of
                [] \<Rightarrow> None
              | colon # rest1 \<Rightarrow>
                  (if colon = CHR '':'' then
                     (case skip_ws rest1 of
                        [] \<Rightarrow> None
                      | br # rest2 \<Rightarrow>
                          (if br = CHR ''['' then
                             (case scan_array rest2 of
                                None \<Rightarrow> None
                              | Some (items, rest3) \<Rightarrow>
                                  (case skip_ws rest3 of
                                     [] \<Rightarrow> None
                                   | d # rest4 \<Rightarrow>
                                       (if d = CHR ''}'' then Some ([(key, items)], rest4)
                                        else if d = CHR '','' then
                                          cons_result (key, items) (scan_pairs (skip_ws rest4))
                                        else None)))
                           else None))
                   else None)))
      else None)"
  by pat_completeness auto
termination
  by (relation "measure length") (auto intro: scan_pairs_decreases)

definition parse_history :: "string \<Rightarrow> (string \<times> string list) list option" where
  "parse_history s =
     (case skip_ws s of
        [] \<Rightarrow> None
      | c # cs \<Rightarrow>
          (if c = CHR ''{'' then
             (case skip_ws cs of
                [] \<Rightarrow> None
              | d # ds \<Rightarrow>
                  (case (if d = CHR ''}'' then Some ([], ds) else scan_pairs (d # ds)) of
                     None \<Rightarrow> None
                   | Some (pairs, rest) \<Rightarrow> if skip_ws rest = [] then Some pairs else None))
           else None))"

definition history_of_pairs :: "(string \<times> string list) list \<Rightarrow> json" where
  "history_of_pairs pairs =
     JObj (fold (\<lambda>(k, items) d. AList.update k (JArr (map JStr items)) d) pairs [])"

definition json_loads :: "(string \<Rightarrow> json option) \<Rightarrow> string \<Rightarrow> json option" where
  "json_loads other s =
     (case parse_history s of
        Some pairs \<Rightarrow> Some (history_of_pairs pairs)
      | None \<Rightarrow> other s)"


text \<open>
  The text of one entry of a dumped history, and the history that a list of parsed pairs
  stands for when no key repeats.
\<close>

definition entry_text :: "nat \<Rightarrow> string \<times> string list \<Rightarrow> string" where
  "entry_text level kv =
     encode_basestring (fst kv) @ '': '' @ json_encode level (JArr (map JStr (snd kv)))"

definition pairs_json :: "(string \<times> string list) list \<Rightarrow> dict" where
  "pairs_json ps = map (\<lambda>kv. (fst kv, JArr (map JStr (snd kv)))) ps"

section \<open>The history file\<close>

text \<open>
  What the file \<open>instagram_post_history.json\<close> can be when it is opened for
  reading: missing (\<open>os.path.exists\<close> is false); present but \<open>open\<close> raises an
  \<open>OSError\<close>; present with bytes that are not UTF-8, so that reading raises a
  \<open>UnicodeDecodeError\<close>; or present with a text.
\<close>

datatype history_file = Missing | Unreadable | Undecodable | Content string

text \<open>
  Lines 48-56:
  \<^verbatim>\<open>
    def load_history():
        if os.path.exists(HISTORY_FILE):
            try:
                with open(HISTORY_FILE, 'r', encoding='utf-8') as f:
                    return json.load(f)
            except json.JSONDecodeError:
                return {}
        return {}
  \<close>
  Only the \<open>JSONDecodeError\<close> of the parser is caught; \<open>Inl\<close> is an error that
  leaves the function.
\<close>

definition load_history :: "(string \<Rightarrow> json option) \<Rightarrow> history_file \<Rightarrow> py_error + json" where
  "load_history other f =
     (case f of
        Missing \<Rightarrow> Inr (JObj [])
      | Unreadable \<Rightarrow> Inl OSError
      | Undecodable \<Rightarrow> Inl UnicodeDecodeError
      | Content s \<Rightarrow>
          (case json_loads other s of
             None \<Rightarrow> Inr (JObj [])
           | Some history \<Rightarrow> Inr history))"

text \<open>
  Lines 58-64:
  \<^verbatim>\<open>
    def save_history(history):
        try:
            with open(HISTORY_FILE, 'w', encoding='utf-8') as f:
                json.dump(history, f, indent=2, ensure_ascii=False)
        except Exception as e:
            print(f"Warning: Could not save history: {e}", file=sys.stderr)
  \<close>
  How the storage takes the write is a parameter: it accepts it, it refuses to open the
  file, or it fails after some characters were written to the truncated file. The result
  is the file afterwards and whether the warning was printed.
\<close>

datatype storage = Writable | WriteProtected | FailsAfter nat

definition save_history :: "json \<Rightarrow> storage \<Rightarrow> history_file \<Rightarrow> history_file \<times> bool" where
  "save_history history st f =
     (case st of
        Writable \<Rightarrow> (Content (json_dumps history), False)
      | WriteProtected \<Rightarrow> (f, True)
      | FailsAfter n \<Rightarrow> (Content (take n (json_dumps history)), True))"

section \<open>Facts about strings\<close>

lemma str_startswith_iff: "str_startswith s p \<longleftrightarrow> (\<exists>ys. s = p @ ys)"
proof
  assume "str_startswith s p"
  then have "s = p @ drop (length p) s"
    unfolding str_startswith_def by (metis append_take_drop_id)
  then show "\<exists>ys. s = p @ ys" ..
next
  assume "\<exists>ys. s = p @ ys"
  then show "str_startswith s p"
    unfolding str_startswith_def by auto
qed

lemma str_in_iff: "str_in sub s \<longleftrightarrow> (\<exists>xs ys. s = xs @ sub @ ys)"
proof (induction s)
  case Nil
  then show ?case by auto
next
  case (Cons c cs)
  show ?case
  proof
    assume "str_in sub (c # cs)"
    then consider "str_startswith (c # cs) sub" | "str_in sub cs" by auto
    then show "\<exists>xs ys. c # cs = xs @ sub @ ys"
    proof cases
      case 1
      then obtain ys where "c # cs = sub @ ys"
        using str_startswith_iff by blast
      then have "c # cs = [] @ sub @ ys" by simp
      then show ?thesis by blast
    next
      case 2
      then obtain xs ys where "cs = xs @ sub @ ys"
        using Cons.IH by blast
      then have "c # cs = (c # xs) @ sub @ ys" by simp
      then show ?thesis by blast
    qed
  next
    assume "\<exists>xs ys. c # cs = xs @ sub @ ys"
    then obtain xs ys where eq: "c # cs = xs @ sub @ ys" by blast
    show "str_in sub (c # cs)"
    proof (cases xs)
      case Nil
      with eq have "str_startswith (c # cs) sub"
        using str_startswith_iff by auto
      then show ?thesis by simp
    next
      case (Cons x xs')
      with eq have "cs = xs' @ sub @ ys" by simp
      then have "str_in sub cs" using Cons.IH by blast
      then show ?thesis by simp
    qed
  qed
qed

section \<open>Facts about dictionaries and lists\<close>

lemma map_of_update: "map_of (AList.update k v d) k' = (if k' = k then Some v else map_of d k')"
  by (simp add: update_conv')

lemma py_get_update: "py_get (AList.update k v d) k' = (if k' = k then v else py_get d k')"
  by (simp add: py_get_def update_conv')

lemma list_all_update:
  "list_all P h \<Longrightarrow> P (k, v) \<Longrightarrow> list_all P (AList.update k v h)"
  by (induction h) auto

lemma list_all_map_of:
  "list_all P h \<Longrightarrow> map_of h k = Some v \<Longrightarrow> P (k, v)"
  by (induction h) (auto split: if_splits)

lemma count_list_distinct_member:
  "distinct xs \<Longrightarrow> x \<in> set xs \<Longrightarrow> count_list xs x = 1"
  by (induction xs) auto

lemma py_eq_str: "py_eq x (JStr s) = (x = JStr s)"
  by (cases x) auto

lemma list_ex_py_eq_str: "list_ex (py_eq (JStr a)) xs = (JStr a \<in> set xs)"
  by (induction xs) auto

section \<open>Facts about the JSON text\<close>


lemma hex_val_hex_digit: "n < 16 \<Longrightarrow> hex_val (hex_digit n) = Some n"
  by (auto simp: hex_val_def hex_digit_def Let_def)

lemma hex_val_zero: "hex_val (CHR ''0'') = Some 0"
  by (simp add: hex_val_def)


lemma scan_escape_u:
  assumes "(of_char c :: nat) < 32"
  shows "scan_escape (CHR ''u'' # CHR ''0'' # CHR ''0'' # hex_digit (of_char c div 16)
            # hex_digit (of_char c mod 16) # t) = Some (c, t)"
proof -
  have 1: "hex_val (hex_digit (of_char c div 16)) = Some (of_char c div 16)"
    using assms by (intro hex_val_hex_digit) simp
  have 2: "hex_val (hex_digit (of_char c mod 16)) = Some (of_char c mod 16)"
    by (intro hex_val_hex_digit) simp
  have 3: "char_of (16 * (of_char c div 16) + of_char c mod 16 :: nat) = c"
    by simp
  show ?thesis
    unfolding scan_escape_def by (simp add: 1 2 3 hex_val_zero del: mult_div_mod_eq div_mult_mod_eq)
qed

lemma scanstring_escape_char:
  "scanstring (escape_char c @ t) = cons_result c (scanstring t)"
proof -
  consider "c = DQ" | "c = BS" | "c = CHR 0x08" | "c = CHR 0x0C" | "c = LF" | "c = CHR 0x0D"
    | "c = CHR 0x09"
    | "c \<noteq> DQ" "c \<noteq> BS" "c \<noteq> CHR 0x08" "c \<noteq> CHR 0x0C" "c \<noteq> LF" "c \<noteq> CHR 0x0D" "c \<noteq> CHR 0x09"
      "(of_char c :: nat) < 32"
    | "c \<noteq> DQ" "c \<noteq> BS" "\<not> (of_char c :: nat) < 32"
    by blast
  then show ?thesis
  proof cases
    case 8
    then show ?thesis
      by (simp add: escape_char_def scan_escape_u)
  next
    case 9
    then have "escape_char c = [c]" by (auto simp: escape_char_def)
    with 9 show ?thesis by simp
  qed (simp_all add: escape_char_def scan_escape_def unescape_def)
qed

lemma scanstring_encoded:
  "scanstring (concat (map escape_char s) @ DQ # rest) = Some (s, rest)"
  by (induction s) (simp_all add: scanstring_escape_char cons_result_def)

lemma scan_encoded_string:
  "scanstring (tl (encode_basestring s) @ rest) = Some (s, rest)"
  using scanstring_encoded [of s rest] by (simp add: encode_basestring_def)


lemma skip_ws_newline_indent: "skip_ws (newline_indent n @ t) = skip_ws t"
  by (simp add: skip_ws_def newline_indent_def is_ws_def dropWhile_append)

lemma skip_ws_space: "skip_ws (CHR '' '' # t) = skip_ws t"
  by (simp add: skip_ws_def is_ws_def)

lemma skip_ws_token: "\<not> is_ws c \<Longrightarrow> skip_ws (c # t) = c # t"
  by (simp add: skip_ws_def)

lemma skip_ws_Nil: "skip_ws [] = []"
  by (simp add: skip_ws_def)

lemma not_ws: "\<not> is_ws DQ" "\<not> is_ws (CHR '']'')" "\<not> is_ws (CHR ''}'')" "\<not> is_ws (CHR '','')"
  "\<not> is_ws (CHR '':'')" "\<not> is_ws (CHR ''['')" "\<not> is_ws (CHR ''{'')"
  by (simp_all add: is_ws_def)

lemma scan_items_encoded:
  "ys \<noteq> [] \<Longrightarrow>
   scan_items (str_join (CHR '','' # newline_indent m) (map encode_basestring ys)
                 @ newline_indent n @ CHR '']'' # rest) = Some (ys, rest)"
proof (induction ys rule: induct_list012)
  case 1
  then show ?case by simp
next
  case (2 y)
  show ?case
    by (simp add: encode_basestring_def scanstring_encoded skip_ws_newline_indent
        skip_ws_token not_ws)
next
  case (3 y z zs)
  have next_item: "skip_ws (newline_indent m
        @ str_join (CHR '','' # newline_indent m) (map encode_basestring (z # zs))
        @ newline_indent n @ CHR '']'' # rest)
      = str_join (CHR '','' # newline_indent m) (map encode_basestring (z # zs))
        @ newline_indent n @ CHR '']'' # rest"
    by (cases zs) (simp_all add: skip_ws_newline_indent encode_basestring_def skip_ws_token not_ws)
  have "scan_items (str_join (CHR '','' # newline_indent m) (map encode_basestring (y # z # zs))
                 @ newline_indent n @ CHR '']'' # rest)
      = cons_result y (scan_items (skip_ws (newline_indent m
        @ str_join (CHR '','' # newline_indent m) (map encode_basestring (z # zs))
        @ newline_indent n @ CHR '']'' # rest)))"
    by (simp add: encode_basestring_def scanstring_encoded skip_ws_token not_ws)
  also have "\<dots> = Some (y # z # zs, rest)"
    using "3.IH"(2) unfolding next_item by (simp add: cons_result_def)
  finally show ?case .
qed

lemma scan_array_encoded:
  "scan_array (tl (json_encode level (JArr (map JStr ys))) @ rest) = Some (ys, rest)"
proof (cases ys)
  case Nil
  then show ?thesis by (simp add: scan_array_def skip_ws_token not_ws)
next
  case (Cons y zs)
  have ne: "ys \<noteq> []" using Cons by simp
  have start: "\<exists>u. str_join (CHR '','' # newline_indent (Suc level)) (map encode_basestring ys)
        @ newline_indent level @ CHR '']'' # rest = DQ # u"
    using Cons by (cases zs) (simp_all add: encode_basestring_def)
  then obtain u where u: "str_join (CHR '','' # newline_indent (Suc level))
        (map encode_basestring ys) @ newline_indent level @ CHR '']'' # rest = DQ # u"
    by blast
  have "scan_array (tl (json_encode level (JArr (map JStr ys))) @ rest)
      = scan_array (newline_indent (Suc level)
          @ str_join (CHR '','' # newline_indent (Suc level)) (map encode_basestring ys)
          @ newline_indent level @ CHR '']'' # rest)"
    using ne by (simp add: o_def)
  also have "\<dots> = scan_items (DQ # u)"
    unfolding scan_array_def by (simp add: skip_ws_newline_indent u skip_ws_token not_ws)
  also have "\<dots> = Some (ys, rest)"
    unfolding u [symmetric] using ne by (rule scan_items_encoded)
  finally show ?thesis .
qed


lemma json_encode_array_start:
  "json_encode level (JArr xs) = CHR ''['' # tl (json_encode level (JArr xs))"
  by simp

lemma scan_pairs_entry:
  "scan_pairs (entry_text level (k, ys) @ t) =
     (case skip_ws t of
        [] \<Rightarrow> None
      | d # rest4 \<Rightarrow>
          (if d = CHR ''}'' then Some ([(k, ys)], rest4)
           else if d = CHR '','' then cons_result (k, ys) (scan_pairs (skip_ws rest4))
           else None))"
proof -
  let ?arr = "json_encode level (JArr (map JStr ys))"
  have "entry_text level (k, ys) @ t
      = DQ # (concat (map escape_char k) @ DQ # CHR '':'' # CHR '' '' # CHR ''['' # tl ?arr @ t)"
    unfolding entry_text_def encode_basestring_def
    by (subst json_encode_array_start) simp
  then show ?thesis
    by (simp add: scanstring_encoded skip_ws_token skip_ws_space not_ws scan_array_encoded
        del: json_encode.simps)
qed

lemma entry_text_start: "\<exists>u. entry_text level kv @ t = DQ # u"
  by (simp add: entry_text_def encode_basestring_def)

lemma entries_start:
  "ps \<noteq> [] \<Longrightarrow> \<exists>u. str_join sep (map (entry_text level) ps) @ t = DQ # u"
proof (induction ps rule: induct_list012)
  case 1
  then show ?case by simp
next
  case (2 p)
  then show ?case using entry_text_start [of level p t] by simp
next
  case (3 p q qs)
  then show ?case
    using entry_text_start [of level p "sep @ str_join sep (map (entry_text level) (q # qs)) @ t"]
    by simp
qed

lemma skip_ws_entries:
  assumes "ps \<noteq> []"
  shows "skip_ws (newline_indent m @ str_join sep (map (entry_text level) ps) @ t)
     = str_join sep (map (entry_text level) ps) @ t"
proof -
  from entries_start [OF assms, of sep level t]
  obtain u where u: "str_join sep (map (entry_text level) ps) @ t = DQ # u" by blast
  show ?thesis unfolding skip_ws_newline_indent u by (simp add: skip_ws_token not_ws)
qed

lemma scan_pairs_encoded:
  "ps \<noteq> [] \<Longrightarrow>
   scan_pairs (str_join (CHR '','' # newline_indent m) (map (entry_text level) ps)
                 @ newline_indent n @ CHR ''}'' # rest) = Some (ps, rest)"
proof (induction ps rule: induct_list012)
  case 1
  then show ?case by simp
next
  case (2 p)
  obtain k ys where p: "p = (k, ys)" by (cases p)
  show ?case
    by (simp add: p scan_pairs_entry skip_ws_newline_indent skip_ws_token not_ws)
next
  case (3 p q qs)
  obtain k ys where p: "p = (k, ys)" by (cases p)
  let ?sep = "CHR '','' # newline_indent m"
  let ?tail = "str_join ?sep (map (entry_text level) (q # qs)) @ newline_indent n @ CHR ''}'' # rest"
  have split: "str_join ?sep (map (entry_text level) (p # q # qs)) @ newline_indent n @ CHR ''}'' # rest
      = entry_text level (k, ys) @ CHR '','' # newline_indent m @ ?tail"
    by (simp add: p)
  have next_entry: "skip_ws (newline_indent m @ ?tail) = ?tail"
    by (rule skip_ws_entries) simp
  have "scan_pairs (entry_text level (k, ys) @ CHR '','' # newline_indent m @ ?tail)
      = cons_result (k, ys) (scan_pairs (skip_ws (newline_indent m @ ?tail)))"
    unfolding scan_pairs_entry by (simp add: skip_ws_token not_ws)
  also have "\<dots> = Some (p # q # qs, rest)"
    unfolding next_entry using "3.IH"(2) by (simp add: cons_result_def p)
  finally show ?case unfolding split .
qed

lemma entry_map:
  "map (\<lambda>(k, v). encode_basestring k @ '': '' @ json_encode level v) (pairs_json ps)
     = map (entry_text level) ps"
  unfolding pairs_json_def entry_text_def map_map by (rule map_cong) simp_all

lemma json_dumps_pairs:
  assumes "ps \<noteq> []"
  shows "json_dumps (JObj (pairs_json ps)) =
     CHR ''{'' # newline_indent (Suc 0)
       @ str_join (CHR '','' # newline_indent (Suc 0)) (map (entry_text (Suc 0)) ps)
       @ newline_indent 0 @ ''}''"
proof -
  have ne: "pairs_json ps \<noteq> []" using assms by (simp add: pairs_json_def)
  show ?thesis
    unfolding json_dumps_def json_encode.simps entry_map using ne by simp
qed

lemma parse_history_dumps: "parse_history (json_dumps (JObj (pairs_json ps))) = Some ps"
proof (cases "ps = []")
  case True
  then show ?thesis
    by (simp add: parse_history_def json_dumps_def pairs_json_def skip_ws_token not_ws skip_ws_Nil)
next
  case False
  let ?body = "str_join (CHR '','' # newline_indent (Suc 0)) (map (entry_text (Suc 0)) ps)
       @ newline_indent 0 @ ''}''"
  from entries_start [OF False, of "CHR '','' # newline_indent (Suc 0)" "Suc 0"
      "newline_indent 0 @ ''}''"]
  obtain u where u: "?body = DQ # u" by blast
  have sk: "skip_ws (newline_indent (Suc 0) @ ?body) = DQ # u"
    unfolding skip_ws_newline_indent u by (simp add: skip_ws_token not_ws)
  have sp: "scan_pairs (DQ # u) = Some (ps, [])"
    unfolding u [symmetric] using scan_pairs_encoded [OF False, of "Suc 0" "Suc 0" 0 "[]"]
    by simp
  have "parse_history (CHR ''{'' # newline_indent (Suc 0) @ ?body) = Some ps"
    unfolding parse_history_def
    by (simp add: skip_ws_token not_ws sk sp skip_ws_Nil del: scan_pairs.simps)
  then show ?thesis
    unfolding json_dumps_pairs [OF False] .
qed

lemma update_fresh: "k \<notin> fst ` set acc \<Longrightarrow> AList.update k v acc = acc @ [(k, v)]"
  by (induction acc) auto

lemma fold_update_distinct:
  "distinct (map fst ps) \<Longrightarrow> fst ` set ps \<inter> fst ` set acc = {} \<Longrightarrow>
   fold (\<lambda>(k, items) d. AList.update k (JArr (map JStr items)) d) ps acc
     = acc @ pairs_json ps"
proof (induction ps arbitrary: acc)
  case Nil
  then show ?case by (simp add: pairs_json_def)
next
  case (Cons p ps)
  obtain k ys where p: "p = (k, ys)" by (cases p)
  from Cons.prems have fresh: "k \<notin> fst ` set acc" by (auto simp: p)
  have d: "distinct (map fst ps)" using Cons.prems by simp
  have disj: "fst ` set ps \<inter> fst ` set (acc @ [(k, JArr (map JStr ys))]) = {}"
    using Cons.prems by (auto simp: p)
  show ?case
    using Cons.IH [OF d disj] by (simp add: p update_fresh [OF fresh] pairs_json_def)
qed

lemma history_of_pairs_distinct:
  "distinct (map fst ps) \<Longrightarrow> history_of_pairs ps = JObj (pairs_json ps)"
  using fold_update_distinct [of ps "[]"] by (simp add: history_of_pairs_def)

lemma angle_list_strings:
  "list_all (\<lambda>x. case x of JStr _ \<Rightarrow> True | _ \<Rightarrow> False) xs \<Longrightarrow> \<exists>ys. xs = map JStr ys"
proof (induction xs)
  case Nil
  then show ?case by simp
next
  case (Cons x xs)
  then obtain ys where "xs = map JStr ys" by auto
  moreover from Cons.prems obtain s where "x = JStr s" by (cases x) auto
  ultimately have "x # xs = map JStr (s # ys)" by simp
  then show ?case by (rule exI [of _ "s # ys"])
qed

lemma wf_history_pairs:
  "distinct (map fst h) \<Longrightarrow> list_all (\<lambda>kv. is_angle_list (snd kv)) h \<Longrightarrow>
   \<exists>ps. h = pairs_json ps \<and> distinct (map fst ps)"
proof (induction h)
  case Nil
  have "[] = pairs_json []" by (simp add: pairs_json_def)
  then show ?case by fastforce
next
  case (Cons kv h)
  then obtain ps where ps: "h = pairs_json ps" "distinct (map fst ps)" by auto
  obtain k v where kv: "kv = (k, v)" by (cases kv)
  from Cons.prems(2) kv obtain xs where v: "v = JArr xs"
      and "list_all (\<lambda>x. case x of JStr _ \<Rightarrow> True | _ \<Rightarrow> False) xs"
    by (cases v) auto
  then obtain ys where ys: "xs = map JStr ys" using angle_list_strings by blast
  have keys: "map fst h = map fst ps" using ps(1) by (simp add: pairs_json_def o_def)
  have "kv # h = pairs_json ((k, ys) # ps)" using kv v ys ps(1) by (simp add: pairs_json_def)
  moreover have "distinct (map fst ((k, ys) # ps))" using Cons.prems(1) kv keys by simp
  ultimately show ?case by blast
qed

lemma json_loads_dumps:
  assumes "wf_history h"
  shows "json_loads other (json_dumps h) = Some h"
proof -
  obtain hh where h: "h = JObj hh" using assms by (cases h) auto
  with assms obtain ps where ps: "hh = pairs_json ps" "distinct (map fst ps)"
    using wf_history_pairs by auto
  show ?thesis
    unfolding h ps(1) json_loads_def parse_history_dumps
    by (simp add: history_of_pairs_distinct [OF ps(2)])
qed

section \<open>Language selection\<close>

text \<open>
  C9. For every article URL the target language is \<open>en\<close> exactly when the URL
  contains one of the markers \<open>en-gb\<close>, \<open>/en/\<close>, \<open>-en-\<close> as a substring, and it
  is \<open>sv\<close> for every other URL.
\<close>

theorem target_lang_markers:
  "(target_lang url = ''en'') =
     (\<exists>m pre post. (m = ''en-gb'' \<or> m = ''/en/'' \<or> m = ''-en-'') \<and> url = pre @ m @ post)
   \<and> (target_lang url \<noteq> ''en'') = (target_lang url = ''sv'')"
proof -
  have en: "(target_lang url = ''en'') =
      (str_in ''en-gb'' url \<or> str_in ''/en/'' url \<or> str_in ''-en-'' url)"
    by (simp add: target_lang_def)
  have "(str_in ''en-gb'' url \<or> str_in ''/en/'' url \<or> str_in ''-en-'' url) =
      (\<exists>m pre post. (m = ''en-gb'' \<or> m = ''/en/'' \<or> m = ''-en-'') \<and> url = pre @ m @ post)"
    unfolding str_in_iff by blast
  moreover have "(target_lang url \<noteq> ''en'') = (target_lang url = ''sv'')"
    by (simp add: target_lang_def)
  ultimately show ?thesis using en by simp
qed

theorem target_lang_markers_witness:
  "target_lang ''https://site.com/en/a'' = ''en'' \<and> target_lang ''https://site.com/a'' = ''sv''"
proof -
  have "''https://site.com/en/a'' = ''https://site.com'' @ ''/en/'' @ ''a''" by simp
  then have "target_lang ''https://site.com/en/a'' = ''en''"
    using target_lang_markers [of "''https://site.com/en/a''"] by blast
  moreover have "target_lang ''https://site.com/a'' = ''sv''"
    by (simp add: target_lang_def str_startswith_def)
  ultimately show ?thesis by simp
qed

section \<open>Title resolution\<close>

text \<open>
  C1, where the code fails it. On a page whose first \<open>h1\<close> holds only an image, the
  heading text is empty; the extractor keeps it, because \<open>if h1:\<close> tests only that the
  element is there, and neither the \<open>title\<close> element nor the fallback
  \<open>Untitled Article\<close> is used. The first non-empty value in the order of the claim is
  the text of \<open>title\<close>.
\<close>

theorem scrape_article_title_empty_heading:
  "map_option art_title (scrape_article ''https://site.com/a''
      (Some [Tag ''html'' []
         [Tag ''head'' [] [Tag ''title'' [] [PageString NavigableString ''Page'']],
          Tag ''body'' [] [Tag ''h1'' [] [Tag ''img'' [(''src'', ''logo.png'')] []]]]])) = Some (Some [])
   \<and> spec_title [Tag ''html'' []
         [Tag ''head'' [] [Tag ''title'' [] [PageString NavigableString ''Page'']],
          Tag ''body'' [] [Tag ''h1'' [] [Tag ''img'' [(''src'', ''logo.png'')] []]]]] = ''Page''"
  by (simp add: scrape_article_def heading_title_def find_first_def find_all_def
      spec_title_def meta_with_def glue_stripped_def interesting_string_types_def Let_def)

section \<open>Body content\<close>

lemma collect_paragraphs_eq:
  "collect_paragraphs ps acc = acc @ filter (\<lambda>t. 40 < length t) (map get_text ps)"
  by (induction ps arbitrary: acc) (auto simp: Let_def)

lemma named_Tag: "named n t \<Longrightarrow> \<exists>attrs children. t = Tag n attrs children"
  by (cases t) auto

lemma get_text_paragraph:
  assumes "named ''p'' p"
  shows "get_text p =
     glue_stripped (map snd
       (filter (\<lambda>cs. fst cs = NavigableString \<or> fst cs = CData) (strings p)))"
proof -
  from named_Tag [OF assms] obtain attrs children where p: "p = Tag ''p'' attrs children"
    by blast
  have "interesting_string_types ''p'' = [NavigableString, CData]"
    by (simp add: interesting_string_types_def)
  then show ?thesis unfolding p by simp
qed

lemma find_all_matches: "t \<in> set (find_all matches soup) \<Longrightarrow> matches t"
  by (simp add: find_all_def)

text \<open>
  C7, as the code has it. On every fetched page extraction succeeds. The text taken from
  a \<open>p\<close> element is made of its string nodes of class \<open>NavigableString\<close> or
  \<open>CData\<close> (comments and the text of scripts and styles are skipped), each stripped on
  its own, the empty ones dropped, the rest glued without a separator. The content is made
  of the texts so taken that are longer than 40 characters, and only of them, in document
  order, joined by a blank line and cut at the cap; it is never longer than 15000
  characters.
\<close>

theorem scrape_article_content:
  "\<exists>a. scrape_article url (Some soup) = Some a
     \<and> art_content a =
         take 15000 (str_join [CHR 0x0A, CHR 0x0A]
           (filter (\<lambda>t. 40 < length t)
              (map (\<lambda>p. glue_stripped (map snd
                      (filter (\<lambda>cs. fst cs = NavigableString \<or> fst cs = CData) (strings p))))
                 (find_all (named ''p'') soup))))
     \<and> length (art_content a) \<le> 15000"
proof -
  have eq: "map get_text (find_all (named ''p'') soup) =
      map (\<lambda>p. glue_stripped (map snd
              (filter (\<lambda>cs. fst cs = NavigableString \<or> fst cs = CData) (strings p))))
        (find_all (named ''p'') soup)"
    by (rule map_cong) (simp_all add: get_text_paragraph find_all_matches)
  show ?thesis
    unfolding eq [symmetric]
    by (simp add: scrape_article_def Let_def collect_paragraphs_eq)
qed

text \<open>
  A navigation paragraph is dropped; a paragraph whose visible text is short is dropped
  although it holds a long script; the comment inside the last paragraph is not part of
  its text.
\<close>

theorem scrape_article_content_witness:
  "\<exists>a. scrape_article ''https://site.com/a''
          (Some [Tag ''body'' []
             [Tag ''p'' [] [PageString NavigableString ''Home | About | Contact''],
              Tag ''p'' []
                [PageString NavigableString ''Share this'',
                 Tag ''script'' []
                   [PageString Script ''window.track = function () { return 1 + 2 + 3; };'']],
              Tag ''p'' []
                [PageString NavigableString ''  The first paragraph of the article, long enough. ''],
              Tag ''p'' []
                [PageString Comment ''ad slot'',
                 PageString NavigableString ''The second paragraph of the article, long enough.'']]])
        = Some a
     \<and> art_content a =
         ''The first paragraph of the article, long enough.'' @ [CHR 0x0A, CHR 0x0A]
           @ ''The second paragraph of the article, long enough.''"
  using scrape_article_content [of "''https://site.com/a''"
      "[Tag ''body'' []
         [Tag ''p'' [] [PageString NavigableString ''Home | About | Contact''],
          Tag ''p'' []
            [PageString NavigableString ''Share this'',
             Tag ''script'' []
               [PageString Script ''window.track = function () { return 1 + 2 + 3; };'']],
          Tag ''p'' []
            [PageString NavigableString ''  The first paragraph of the article, long enough. ''],
          Tag ''p'' []
            [PageString Comment ''ad slot'',
             PageString NavigableString ''The second paragraph of the article, long enough.'']]]"]
  by (auto simp: find_all_def glue_stripped_def str_strip_def is_space_def)

text \<open>
  The claim as worded fails on a paragraph with a link: its trimmed text has 41
  characters, but the two pieces are stripped one by one and glued, which loses the space
  between them, so the text that is measured has 40 characters and the paragraph is
  dropped.
\<close>

theorem scrape_article_content_counterexample:
  "length (spec_trimmed_text
      (Tag ''p'' []
         [PageString NavigableString ''Read our full report '',
          Tag ''a'' [(''href'', ''/partner'')]
            [PageString NavigableString ''on the partner site.'']])) = 41
   \<and> map_option art_content (scrape_article ''https://site.com/a''
        (Some [Tag ''body'' []
           [Tag ''p'' []
              [PageString NavigableString ''Read our full report '',
               Tag ''a'' [(''href'', ''/partner'')]
                 [PageString NavigableString ''on the partner site.'']]]])) = Some []"
  by (simp add: spec_trimmed_text_def scrape_article_def find_all_def glue_stripped_def
      interesting_string_types_def str_strip_def is_space_def Let_def)

section \<open>Caption shape\<close>

text \<open>
  C2, as the code has it. On every reply that is a JSON object the resolution is a total
  function: a top-level \<open>post_text\<close> is kept as it is; without one, \<open>post_text\<close> is
  set from \<open>caption_text\<close> of the object under \<open>instagram_post\<close>, or, when the reply
  has no key \<open>instagram_post\<close> at all, from a top-level \<open>caption_text\<close>. In each of
  these three cases the result has a \<open>post_text\<close>.
\<close>

theorem resolve_caption_total:
  "(map_of data ''post_text'' \<noteq> None \<longrightarrow> resolve_caption data = data)
   \<and> (map_of data ''post_text'' = None \<and> map_of data ''instagram_post'' = Some (JObj cs)
        \<and> map_of cs ''caption_text'' = Some c
      \<longrightarrow> resolve_caption data = AList.update ''post_text'' c data)
   \<and> (map_of data ''post_text'' = None \<and> map_of data ''instagram_post'' = None
        \<and> map_of data ''caption_text'' = Some c
      \<longrightarrow> resolve_caption data = AList.update ''post_text'' c data)
   \<and> (map_of data ''post_text'' \<noteq> None
        \<or> (\<exists>cs. map_of data ''instagram_post'' = Some (JObj cs)
               \<and> map_of cs ''caption_text'' \<noteq> None)
        \<or> (map_of data ''instagram_post'' = None \<and> map_of data ''caption_text'' \<noteq> None)
      \<longrightarrow> map_of (resolve_caption data) ''post_text'' \<noteq> None)"
  by (auto simp: resolve_caption_def map_of_update Let_def split: option.splits json.splits)

theorem resolve_caption_total_witness:
  "resolve_caption [(''instagram_post'', JObj [(''caption_text'', JStr ''Hello'')])] =
     [(''instagram_post'', JObj [(''caption_text'', JStr ''Hello'')]),
      (''post_text'', JStr ''Hello'')]
   \<and> resolve_caption [(''caption_text'', JStr ''Hello'')] =
     [(''caption_text'', JStr ''Hello''), (''post_text'', JStr ''Hello'')]
   \<and> resolve_caption [(''post_text'', JStr ''Top''), (''caption_text'', JStr ''Hello'')] =
     [(''post_text'', JStr ''Top''), (''caption_text'', JStr ''Hello'')]"
  using resolve_caption_total [of "[(''instagram_post'', JObj [(''caption_text'', JStr ''Hello'')])]"
      "[(''caption_text'', JStr ''Hello'')]" "JStr ''Hello''"]
    resolve_caption_total [of "[(''caption_text'', JStr ''Hello'')]" "[]" "JStr ''Hello''"]
    resolve_caption_total [of "[(''post_text'', JStr ''Top''), (''caption_text'', JStr ''Hello'')]"]
  by simp

text \<open>
  The claim as worded fails on a reply with a top-level \<open>caption_text\<close> and an
  \<open>instagram_post\<close> object that has none: the top-level field is not looked at and
  the result has no \<open>post_text\<close>.
\<close>

theorem resolve_caption_counterexample:
  "map_of [(''instagram_post'', JObj [(''angle_description'', JStr ''x'')]),
           (''caption_text'', JStr ''hi'')] ''caption_text'' = Some (JStr ''hi'')
   \<and> map_of (resolve_caption
        [(''instagram_post'', JObj [(''angle_description'', JStr ''x'')]),
         (''caption_text'', JStr ''hi'')]) ''post_text'' = None"
  by (simp add: resolve_caption_def)

section \<open>Post-processing of the caption\<close>

lemma previous_angles_dict: "\<exists>p. previous_angles (JObj h) url = Inr p"
  by (auto simp: previous_angles_def py_contains_def split: bool.splits)

lemma resolve_caption_unchanged:
  "map_of (resolve_caption data) ''post_text'' = None \<Longrightarrow> resolve_caption data = data"
  by (auto simp: resolve_caption_def map_of_update Let_def
      split: option.splits json.splits if_splits)

text \<open>
  C10, as the code has it. With a history that is a dictionary, for every reply that is
  a JSON object: when \<open>post_text\<close> is a string after the resolution of the caption
  shape, the result is the resolved reply with the cleaned text (artifacts and the
  article URL removed, then stripped) as \<open>post_text\<close> and with \<open>language\<close> set;
  when there is no \<open>post_text\<close> after the resolution, the reply is returned unchanged;
  when \<open>post_text\<close> is there but is not a string, and on every reply that is not an
  object, the function returns \<open>None\<close>.
\<close>

theorem generate_post_text_cases:
  "(map_of (resolve_caption data) ''post_text'' = Some (JStr s) \<longrightarrow>
      generate_instagram_post a (Some (JObj data)) (JObj h) =
        Inr (Some (AList.update ''language'' (JStr (target_lang (art_url a)))
               (AList.update ''post_text'' (JStr (clean_caption (art_url a) s))
                  (resolve_caption data)))))
   \<and> (map_of (resolve_caption data) ''post_text'' = None \<longrightarrow>
      generate_instagram_post a (Some (JObj data)) (JObj h) = Inr (Some data))
   \<and> (map_of (resolve_caption data) ''post_text'' = Some v \<and> (\<forall>s. v \<noteq> JStr s) \<longrightarrow>
      generate_instagram_post a (Some (JObj data)) (JObj h) = Inr None)
   \<and> ((\<forall>d. reply \<noteq> Some (JObj d)) \<longrightarrow> generate_instagram_post a reply (JObj h) = Inr None)"
proof -
  obtain p where p: "previous_angles (JObj h) (art_url a) = Inr p"
    using previous_angles_dict by blast
  have 1: "map_of (resolve_caption data) ''post_text'' = Some (JStr s) \<Longrightarrow>
      generate_instagram_post a (Some (JObj data)) (JObj h) =
        Inr (Some (AList.update ''language'' (JStr (target_lang (art_url a)))
               (AList.update ''post_text'' (JStr (clean_caption (art_url a) s))
                  (resolve_caption data))))"
    by (simp add: generate_instagram_post_def p post_process_def)
  have 2: "map_of (resolve_caption data) ''post_text'' = None \<Longrightarrow>
      generate_instagram_post a (Some (JObj data)) (JObj h) = Inr (Some data)"
    using resolve_caption_unchanged [of data]
    by (simp add: generate_instagram_post_def p post_process_def)
  have 3: "map_of (resolve_caption data) ''post_text'' = Some v \<Longrightarrow> (\<forall>s. v \<noteq> JStr s) \<Longrightarrow>
      generate_instagram_post a (Some (JObj data)) (JObj h) = Inr None"
    by (cases v) (simp_all add: generate_instagram_post_def p post_process_def)
  have 4: "(\<forall>d. reply \<noteq> Some (JObj d)) \<Longrightarrow> generate_instagram_post a reply (JObj h) = Inr None"
    by (auto simp: generate_instagram_post_def p split: option.splits json.splits)
  show ?thesis using 1 2 3 4 by blast
qed

theorem generate_post_text_cases_witness:
  "generate_instagram_post
      \<lparr>art_url = ''https://site.com/en/a'', art_title = Some ''T'', art_structure = [],
       art_content = [], art_image_url = None\<rparr>
      (Some (JObj [(''post_text'', JStr ''CAPTION: Hi **there** '')])) (JObj []) =
     Inr (Some [(''post_text'', JStr ''Hi there''), (''language'', JStr ''en'')])
   \<and> generate_instagram_post
      \<lparr>art_url = ''https://site.com/en/a'', art_title = Some ''T'', art_structure = [],
       art_content = [], art_image_url = None\<rparr>
      (Some (JObj [(''hashtags'', JArr [])])) (JObj []) =
     Inr (Some [(''hashtags'', JArr [])])"
proof -
  have c: "clean_caption ''https://site.com/en/a'' ''CAPTION: Hi **there** '' = ''Hi there''"
    by (simp add: clean_caption_def garbage_def str_startswith_def str_strip_def is_space_def)
  have t: "target_lang ''https://site.com/en/a'' = ''en''"
    by (simp add: target_lang_def str_startswith_def)
  show ?thesis
    using generate_post_text_cases [of "[(''post_text'', JStr ''CAPTION: Hi **there** '')]"
        "''CAPTION: Hi **there** ''"
        "\<lparr>art_url = ''https://site.com/en/a'', art_title = Some ''T'', art_structure = [],
          art_content = [], art_image_url = None\<rparr>" "[]"]
      generate_post_text_cases [of "[(''hashtags'', JArr [])]" "[]"
        "\<lparr>art_url = ''https://site.com/en/a'', art_title = Some ''T'', art_structure = [],
          art_content = [], art_image_url = None\<rparr>" "[]"]
    by (simp add: resolve_caption_def c t)
qed

text \<open>
  The claim as worded fails on a parsed reply whose caption is \<open>null\<close>: after the
  resolution the result has a \<open>post_text\<close> field, yet no language is attached and
  nothing is cleaned, because the function returns \<open>None\<close>.
\<close>

theorem generate_post_text_counterexample:
  "map_of (resolve_caption [(''instagram_post'', JObj [(''caption_text'', JNull)])])
      ''post_text'' = Some JNull
   \<and> generate_instagram_post
      \<lparr>art_url = ''https://site.com/a'', art_title = Some ''T'', art_structure = [],
       art_content = [], art_image_url = None\<rparr>
      (Some (JObj [(''instagram_post'', JObj [(''caption_text'', JNull)])])) (JObj []) =
     Inr None"
  by (simp add: generate_instagram_post_def previous_angles_def resolve_caption_def
      post_process_def)

section \<open>Back-fill of the identity fields\<close>

text \<open>
  C6. A result whose \<open>article_url\<close>, \<open>image_url\<close> and \<open>title\<close> are all non-empty
  (true values, as a non-empty string is) is left unchanged by the back-fill, so the
  three fields are; a field that is missing or empty (a false value: a missing key reads
  as \<open>None\<close>) is filled from the command line's URL, which is the \<open>url\<close> of the
  extracted article, and from the article's image and title.
\<close>

theorem backfill_identity_fields:
  "(truthy (py_get r ''article_url'') \<and> truthy (py_get r ''image_url'')
      \<and> truthy (py_get r ''title'') \<longrightarrow> backfill url data r = r)
   \<and> (\<not> truthy (py_get r ''article_url'') \<longrightarrow>
        py_get (backfill url data r) ''article_url'' = JStr url)
   \<and> (\<not> truthy (py_get r ''image_url'') \<longrightarrow>
        py_get (backfill url data r) ''image_url'' = opt_json (art_image_url data))
   \<and> (\<not> truthy (py_get r ''title'') \<longrightarrow>
        py_get (backfill url data r) ''title'' = opt_json (art_title data))
   \<and> (truthy (JStr s) = (s \<noteq> [])) \<and> \<not> truthy JNull
   \<and> (map_of r k = None \<longrightarrow> py_get r k = JNull)
   \<and> (scrape_article url response = Some data \<longrightarrow> art_url data = url)"
proof -
  have "truthy (py_get r ''article_url'') \<and> truthy (py_get r ''image_url'')
      \<and> truthy (py_get r ''title'') \<longrightarrow> backfill url data r = r"
    by (auto simp: backfill_def Let_def py_get_update py_eq_str)
  moreover have "\<not> truthy (py_get r ''article_url'') \<longrightarrow>
        py_get (backfill url data r) ''article_url'' = JStr url"
    by (simp add: backfill_def Let_def py_get_update)
  moreover have "\<not> truthy (py_get r ''image_url'') \<longrightarrow>
        py_get (backfill url data r) ''image_url'' = opt_json (art_image_url data)"
    by (simp add: backfill_def Let_def py_get_update)
  moreover have "\<not> truthy (py_get r ''title'') \<longrightarrow>
        py_get (backfill url data r) ''title'' = opt_json (art_title data)"
    by (simp add: backfill_def Let_def py_get_update)
  moreover have "map_of r k = None \<longrightarrow> py_get r k = JNull"
    by (simp add: py_get_def)
  moreover have "scrape_article url response = Some data \<longrightarrow> art_url data = url"
    by (auto simp: scrape_article_def Let_def split: option.splits)
  ultimately show ?thesis by simp
qed

theorem backfill_identity_fields_witness:
  "backfill ''https://site.com/a''
      \<lparr>art_url = ''https://site.com/a'', art_title = Some ''Extracted'', art_structure = [],
       art_content = [], art_image_url = Some ''https://cdn.example.com/x.jpg''\<rparr>
      [(''article_url'', JStr ''https://other.example/b''), (''image_url'', JStr ''i.png''),
       (''title'', JStr ''Generated'')] =
     [(''article_url'', JStr ''https://other.example/b''), (''image_url'', JStr ''i.png''),
      (''title'', JStr ''Generated'')]
   \<and> py_get (backfill ''https://site.com/a''
      \<lparr>art_url = ''https://site.com/a'', art_title = Some ''Extracted'', art_structure = [],
       art_content = [], art_image_url = Some ''https://cdn.example.com/x.jpg''\<rparr>
      [(''title'', JStr [])]) ''title'' = JStr ''Extracted''"
  using backfill_identity_fields [of
      "[(''article_url'', JStr ''https://other.example/b''), (''image_url'', JStr ''i.png''),
        (''title'', JStr ''Generated'')]" "''https://site.com/a''"
      "\<lparr>art_url = ''https://site.com/a'', art_title = Some ''Extracted'', art_structure = [],
        art_content = [], art_image_url = Some ''https://cdn.example.com/x.jpg''\<rparr>"]
    backfill_identity_fields [of "[(''title'', JStr [])]" "''https://site.com/a''"
      "\<lparr>art_url = ''https://site.com/a'', art_title = Some ''Extracted'', art_structure = [],
        art_content = [], art_image_url = Some ''https://cdn.example.com/x.jpg''\<rparr>"]
  by (simp add: py_get_def opt_json_def)

section \<open>The angle history\<close>

lemma record_angle_list:
  assumes "map_of h url = Some (JArr xs)"
  shows "record_angle (JObj h) url (JStr a) =
     (if JStr a \<in> set xs then Inr (JObj h, False)
      else Inr (JObj (AList.update url (JArr (xs @ [JStr a])) h), True))"
  using assms
  by (simp add: record_angle_def py_get_def py_contains_def list_ex_py_eq_str Let_def)

lemma record_angle_new:
  assumes "map_of h url = None"
  shows "record_angle (JObj h) url (JStr a) =
     Inr (JObj (AList.update url (JArr [JStr a]) h), True)"
  using assms
  by (simp add: record_angle_def py_get_def py_contains_def Let_def map_of_update)

lemma record_angle_gains:
  assumes "wf_history h"
  shows "\<exists>h'. record_angle h url (JStr a) = Inr (h', JStr a \<notin> set (angles h url))
     \<and> JStr a \<in> set (angles h' url)"
proof -
  obtain hh where h: "h = JObj hh" using assms by (cases h) auto
  have all: "list_all (\<lambda>kv. is_angle_list (snd kv)) hh" using assms h by simp
  show ?thesis
  proof (cases "map_of hh url")
    case None
    then show ?thesis using h by (simp add: record_angle_new map_of_update)
  next
    case (Some v)
    from list_all_map_of [OF all Some] obtain xs where "v = JArr xs" by (cases v) auto
    with Some have m: "map_of hh url = Some (JArr xs)" by simp
    show ?thesis using h m by (simp add: record_angle_list [OF m] map_of_update)
  qed
qed

text \<open>
  C5. On a history that keeps the invariant (every entry is a list without a repeated
  value), recording an angle string for a URL succeeds and changes the history exactly
  when the string is new for that URL; recording the same string again changes nothing;
  afterwards the URL's list holds the string exactly once, and the invariant still
  holds, as does the well-formedness of the history.
\<close>

theorem record_angle_twice:
  assumes inv: "no_repeats h"
  shows "\<exists>h1. record_angle h url (JStr a) = Inr (h1, JStr a \<notin> set (angles h url))
           \<and> record_angle h1 url (JStr a) = Inr (h1, False)
           \<and> count_list (angles h1 url) (JStr a) = 1
           \<and> no_repeats h1
           \<and> (wf_history h \<longrightarrow> wf_history h1)"
proof -
  obtain hh where h: "h = JObj hh"
    using inv by (cases h) auto
  let ?P = "\<lambda>kv. case snd kv of JArr xs \<Rightarrow> distinct xs | _ \<Rightarrow> False"
  let ?Q = "\<lambda>kv. is_angle_list (snd kv)"
  have all: "list_all ?P hh" using inv h by simp
  show ?thesis
  proof (cases "map_of hh url")
    case None
    let ?h1 = "AList.update url (JArr [JStr a]) hh"
    have 1: "record_angle h url (JStr a) = Inr (JObj ?h1, JStr a \<notin> set (angles h url))"
      using None h by (simp add: record_angle_new)
    have m: "map_of ?h1 url = Some (JArr [JStr a])" by (simp add: map_of_update)
    have 2: "record_angle (JObj ?h1) url (JStr a) = Inr (JObj ?h1, False)"
      using record_angle_list [OF m, of a] by simp
    have 3: "count_list (angles (JObj ?h1) url) (JStr a) = 1" using m by simp
    have 4: "no_repeats (JObj ?h1)" using all by (simp add: list_all_update)
    have 5: "wf_history h \<longrightarrow> wf_history (JObj ?h1)"
      using h by (auto simp: list_all_update distinct_update)
    show ?thesis using 1 2 3 4 5 by blast
  next
    case (Some v)
    from list_all_map_of [OF all Some] obtain xs where v: "v = JArr xs" and d: "distinct xs"
      by (cases v) auto
    have m: "map_of hh url = Some (JArr xs)" using Some v by simp
    show ?thesis
    proof (cases "JStr a \<in> set xs")
      case True
      have 1: "record_angle h url (JStr a) = Inr (h, JStr a \<notin> set (angles h url))"
        using record_angle_list [OF m, of a] True h m by simp
      have 2: "record_angle h url (JStr a) = Inr (h, False)"
        using record_angle_list [OF m, of a] True h by simp
      have 3: "count_list (angles h url) (JStr a) = 1"
        using h m d True by (simp add: count_list_distinct_member)
      show ?thesis using 1 2 3 inv by blast
    next
      case False
      let ?h1 = "AList.update url (JArr (xs @ [JStr a])) hh"
      have 1: "record_angle h url (JStr a) = Inr (JObj ?h1, JStr a \<notin> set (angles h url))"
        using record_angle_list [OF m, of a] False h m by simp
      have m1: "map_of ?h1 url = Some (JArr (xs @ [JStr a]))" by (simp add: map_of_update)
      have 2: "record_angle (JObj ?h1) url (JStr a) = Inr (JObj ?h1, False)"
        using record_angle_list [OF m1, of a] by simp
      have 3: "count_list (angles (JObj ?h1) url) (JStr a) = 1"
        using m1 False by (simp add: count_notin)
      have 4: "no_repeats (JObj ?h1)" using all d False by (simp add: list_all_update)
      have "wf_history h \<Longrightarrow> is_angle_list (JArr xs)"
        using h list_all_map_of [of ?Q hh url "JArr xs"] m by simp
      then have 5: "wf_history h \<longrightarrow> wf_history (JObj ?h1)"
        using h by (auto simp: list_all_update distinct_update)
      show ?thesis using 1 2 3 4 5 by blast
    qed
  qed
qed

theorem record_angle_twice_witness:
  "no_repeats (JObj [(''https://site.com/a'', JArr [JStr ''health angle''])])
   \<and> record_angle (JObj [(''https://site.com/a'', JArr [JStr ''health angle''])])
        ''https://site.com/a'' (JStr ''cost angle'') =
      Inr (JObj [(''https://site.com/a'', JArr [JStr ''health angle'', JStr ''cost angle''])],
           True)
   \<and> record_angle
        (JObj [(''https://site.com/a'', JArr [JStr ''health angle'', JStr ''cost angle''])])
        ''https://site.com/a'' (JStr ''cost angle'') =
      Inr (JObj [(''https://site.com/a'', JArr [JStr ''health angle'', JStr ''cost angle''])],
           False)"
proof -
  have inv: "no_repeats (JObj [(''https://site.com/a'', JArr [JStr ''health angle''])])"
    by simp
  have first: "record_angle (JObj [(''https://site.com/a'', JArr [JStr ''health angle''])])
        ''https://site.com/a'' (JStr ''cost angle'') =
      Inr (JObj [(''https://site.com/a'', JArr [JStr ''health angle'', JStr ''cost angle''])],
           True)"
    by (simp add: record_angle_def py_get_def py_contains_def)
  show ?thesis
    using inv first
      record_angle_twice [OF inv, of "''https://site.com/a''" "''cost angle''"]
    by auto
qed

section \<open>The scenario of the specification\<close>

lemma scenario_generate:
  assumes "art_url a = ''https://site.com/a''"
  shows "generate_instagram_post a
       (Some (JObj [(''instagram_post'',
          JObj [(''caption_text'', JStr ''Hello https://site.com/a world''),
                (''angle_description'', JStr ''health angle'')])])) (JObj hh) =
     Inr (Some [(''instagram_post'',
          JObj [(''caption_text'', JStr ''Hello https://site.com/a world''),
                (''angle_description'', JStr ''health angle'')]),
         (''post_text'', JStr ''Hello  world''), (''language'', JStr ''sv'')])"
proof -
  obtain p where p: "previous_angles (JObj hh) (art_url a) = Inr p"
    using previous_angles_dict by blast
  have c: "clean_caption ''https://site.com/a'' ''Hello https://site.com/a world''
      = ''Hello  world''"
    by (simp add: clean_caption_def garbage_def str_startswith_def str_strip_def is_space_def)
  have t: "target_lang ''https://site.com/a'' = ''sv''"
    by (simp add: target_lang_def str_startswith_def)
  show ?thesis
    unfolding generate_instagram_post_def p
    by (simp add: assms resolve_caption_def post_process_def c t)
qed

text \<open>
  C4, as the code has it. For the reply of the scenario and an article with the URL
  \<open>https://site.com/a\<close>, on every well-formed history: the generator returns a result
  whose \<open>post_text\<close> is \<open>Hello\<close>, two spaces, \<open>world\<close> (the URL is removed where it
  stood, and stripping only removes whitespace at the two ends); after the back-fill,
  the history update succeeds, saves exactly when the angle is new for the URL, and
  leaves \<open>health angle\<close> in the URL's list.
\<close>

theorem scenario_caption_and_history:
  assumes url: "art_url a = ''https://site.com/a''" and wf: "wf_history h"
  shows "\<exists>result h' saved.
     generate_instagram_post a
       (Some (JObj [(''instagram_post'',
          JObj [(''caption_text'', JStr ''Hello https://site.com/a world''),
                (''angle_description'', JStr ''health angle'')])])) h = Inr (Some result)
     \<and> py_get result ''post_text'' = JStr ''Hello  world''
     \<and> update_history h ''https://site.com/a'' (backfill ''https://site.com/a'' a result)
         = Inr (h', saved)
     \<and> saved = (JStr ''health angle'' \<notin> set (angles h ''https://site.com/a''))
     \<and> JStr ''health angle'' \<in> set (angles h' ''https://site.com/a'')"
proof -
  obtain hh where h: "h = JObj hh" using wf by (cases h) auto
  let ?r = "[(''instagram_post'',
          JObj [(''caption_text'', JStr ''Hello https://site.com/a world''),
                (''angle_description'', JStr ''health angle'')]),
         (''post_text'', JStr ''Hello  world''), (''language'', JStr ''sv'')]"
  have g: "generate_instagram_post a
       (Some (JObj [(''instagram_post'',
          JObj [(''caption_text'', JStr ''Hello https://site.com/a world''),
                (''angle_description'', JStr ''health angle'')])])) h = Inr (Some ?r)"
    unfolding h by (rule scenario_generate [OF url])
  have pt: "py_get ?r ''post_text'' = JStr ''Hello  world''" by (simp add: py_get_def)
  have na: "new_angle_of (backfill ''https://site.com/a'' a ?r) = JStr ''health angle''"
    by (simp add: new_angle_of_def backfill_def Let_def py_get_update) (simp add: py_get_def)
  have ne: "backfill ''https://site.com/a'' a ?r \<noteq> []"
    by (simp add: backfill_def Let_def py_get_def)
  have u: "update_history h ''https://site.com/a'' (backfill ''https://site.com/a'' a ?r)
      = record_angle h ''https://site.com/a'' (JStr ''health angle'')"
    using ne by (simp add: update_history_def na)
  from record_angle_gains [OF wf, of "''https://site.com/a''" "''health angle''"]
  obtain h' where "record_angle h ''https://site.com/a'' (JStr ''health angle'')
        = Inr (h', JStr ''health angle'' \<notin> set (angles h ''https://site.com/a''))"
      and "JStr ''health angle'' \<in> set (angles h' ''https://site.com/a'')" by blast
  with g pt u show ?thesis by auto
qed

theorem scenario_caption_and_history_witness:
  "\<exists>result h'.
     generate_instagram_post
       \<lparr>art_url = ''https://site.com/a'', art_title = Some ''T'', art_structure = [],
        art_content = [], art_image_url = None\<rparr>
       (Some (JObj [(''instagram_post'',
          JObj [(''caption_text'', JStr ''Hello https://site.com/a world''),
                (''angle_description'', JStr ''health angle'')])])) (JObj [])
       = Inr (Some result)
     \<and> py_get result ''post_text'' = JStr ''Hello  world''
     \<and> update_history (JObj []) ''https://site.com/a''
          (backfill ''https://site.com/a''
             \<lparr>art_url = ''https://site.com/a'', art_title = Some ''T'', art_structure = [],
              art_content = [], art_image_url = None\<rparr> result)
         = Inr (h', True)
     \<and> JStr ''health angle'' \<in> set (angles h' ''https://site.com/a'')"
  using scenario_caption_and_history [of
      "\<lparr>art_url = ''https://site.com/a'', art_title = Some ''T'', art_structure = [],
        art_content = [], art_image_url = None\<rparr>" "JObj []"]
  by auto

text \<open>
  The claim as worded fails: the caption of the scenario comes out with the two spaces
  that stood around the URL, not with one.
\<close>

theorem scenario_caption_counterexample:
  "generate_instagram_post
       \<lparr>art_url = ''https://site.com/a'', art_title = Some ''T'', art_structure = [],
        art_content = [], art_image_url = None\<rparr>
       (Some (JObj [(''instagram_post'',
          JObj [(''caption_text'', JStr ''Hello https://site.com/a world''),
                (''angle_description'', JStr ''health angle'')])])) (JObj []) =
     Inr (Some [(''instagram_post'',
          JObj [(''caption_text'', JStr ''Hello https://site.com/a world''),
                (''angle_description'', JStr ''health angle'')]),
         (''post_text'', JStr ''Hello  world''), (''language'', JStr ''sv'')])
   \<and> JStr ''Hello  world'' \<noteq> JStr ''Hello world''"
  using scenario_generate [of
      "\<lparr>art_url = ''https://site.com/a'', art_title = Some ''T'', art_structure = [],
        art_content = [], art_image_url = None\<rparr>" "[]"]
  by simp

section \<open>Loading and saving the history\<close>

text \<open>
  C3, where the code fails it. A missing file and a text the decoder rejects give the
  empty history, but a file that cannot be opened or whose bytes are not UTF-8 makes
  \<open>load_history\<close> raise: only \<open>json.JSONDecodeError\<close> is caught.
\<close>

theorem load_history_raises:
  "load_history other Undecodable = Inl UnicodeDecodeError
   \<and> load_history other Unreadable = Inl OSError
   \<and> load_history other Missing = Inr (JObj [])
   \<and> load_history (\<lambda>s. None) (Content ''{not json'') = Inr (JObj [])"
  by (simp add: load_history_def json_loads_def parse_history_def skip_ws_def is_ws_def)

text \<open>
  C8. When the storage accepts the write (no warning is printed), saving a well-formed
  history and loading the file again gives the same history: the same keys in the same
  order, each with the same list of angle strings in the same order.
\<close>

theorem save_load_roundtrip:
  assumes "wf_history h" and "save_history h st f = (f', False)"
  shows "load_history other f' = Inr h"
proof -
  from assms(2) have "f' = Content (json_dumps h)"
    by (cases st) (simp_all add: save_history_def)
  then show ?thesis
    by (simp add: load_history_def json_loads_dumps [OF assms(1)])
qed

theorem save_load_roundtrip_witness:
  "load_history (\<lambda>s. None)
      (fst (save_history
        (JObj [(''https://site.com/a'', JArr [JStr ''health angle'', JStr ''cost angle'']),
               (''https://site.com/b'', JArr [])])
        Writable Missing))
   = Inr (JObj [(''https://site.com/a'', JArr [JStr ''health angle'', JStr ''cost angle'']),
                (''https://site.com/b'', JArr [])])"
  using save_load_roundtrip [of
      "JObj [(''https://site.com/a'', JArr [JStr ''health angle'', JStr ''cost angle'']),
             (''https://site.com/b'', JArr [])]"
      Writable Missing
      "Content (json_dumps
         (JObj [(''https://site.com/a'', JArr [JStr ''health angle'', JStr ''cost angle'']),
                (''https://site.com/b'', JArr [])]))"
      "\<lambda>s. None"]
  by (simp add: save_history_def)

section \<open>The featured image\<close>

text \<open>
  The scenario of the specification: an \<open>og:image\<close> with the insecure scheme is
  extracted with the secure one.
\<close>

theorem og_image_forced_https:
  "map_option art_image_url
     (scrape_article ''https://site.com/a''
        (Some [Tag ''head'' []
           [Tag ''meta'' [(''property'', ''og:image''),
                          (''content'', ''http://cdn.example.com/x.jpg'')] []]]))
   = Some (Some ''https://cdn.example.com/x.jpg'')"
  by (simp add: scrape_article_def featured_image_def find_first_def find_all_def
      meta_with_def str_startswith_def Let_def)

end
